theory Spec2Isabelle
  imports Main
begin

section \<open>kbase::Lazy: a lazily created, once-initialised value\<close>

text \<open>
  The development embeds the class template \<^verbatim>\<open>kbase::Lazy<T>\<close> of
  \<^verbatim>\<open>src/kbase/lazy.h\<close>. The class is stateful and its stored Creator is arbitrary
  client code, so every member function is a function on an explicit configuration:
  the object's three data members, the part of the program state a Creator can read
  and write, and a count of the evaluations of \<^verbatim>\<open>ctor_()\<close>.

  Exceptions are values, and so is the undefined behaviour of dereferencing a null
  pointer in \<^verbatim>\<open>value()\<close>. The embedding is sequential: one thread calls the member
  functions one after the other.
\<close>

subsection \<open>Pointers, objects and the store\<close>

text \<open>A raw pointer \<^verbatim>\<open>T*\<close>: the null pointer or the address of a cell of the store.\<close>

datatype ptr = Null | Addr nat

text \<open>
  The program state outside the holder. \<open>heap\<close> is the free store of \<^verbatim>\<open>T\<close> objects:
  the address of a cell is its index, a cell reads \<open>None\<close> once its object has been
  deleted, and a new object always gets a cell of its own at the end (allocation does
  not fail and addresses are not reused). \<open>ext\<close> is whatever else a Creator captures.
\<close>

record ('a, 'e) world =
  heap :: "'a option list"
  ext :: 'e

text \<open>Reading the object a reference refers to; \<open>None\<close> when there is no live object there.\<close>

definition deref :: "('a, 'e) world \<Rightarrow> nat \<Rightarrow> 'a option" where
  "deref w a = (if a < length (heap w) then heap w ! a else None)"

text \<open>\<^verbatim>\<open>new T(v)\<close>: a fresh cell holding \<open>v\<close>, and the pointer to it.\<close>

definition new_obj :: "'a \<Rightarrow> ('a, 'e) world \<Rightarrow> ptr \<times> ('a, 'e) world" where
  "new_obj v w = (Addr (length (heap w)), w\<lparr>heap := heap w @ [Some v]\<rparr>)"

text \<open>\<^verbatim>\<open>delete p\<close>, what \<^verbatim>\<open>std::default_delete<T>\<close> does: nothing on the null pointer.\<close>

fun delete_obj :: "ptr \<Rightarrow> ('a, 'e) world \<Rightarrow> ('a, 'e) world" where
  "delete_obj Null w = w"
| "delete_obj (Addr a) w = w\<lparr>heap := (heap w)[a := None]\<rparr>"

subsection \<open>Creators\<close>

text \<open>
  What a call can throw: \<^verbatim>\<open>std::bad_function_call\<close>, thrown by an empty
  \<^verbatim>\<open>std::function\<close>, or an exception \<open>'x\<close> of the client's.
\<close>

datatype 'x exn = Bad_function_call | Exn 'x

text \<open>One run of a \<^verbatim>\<open>T*()\<close> callable ends by throwing or by returning a raw pointer.\<close>

datatype 'x result = Throws "'x exn" | Returns ptr

text \<open>
  \<^verbatim>\<open>typedef std::function<T*()> Creator\<close>. A \<^verbatim>\<open>std::function\<close> is empty (\<open>None\<close>) or
  holds a target, which is client code: it reads and changes the world as it likes.
  A target is a function here, so its run ends, and it sees the world but not the
  holder: a Creator that calls back into the holder it is creating for is left out.
\<close>

type_synonym ('a, 'e, 'x) Creator =
  "(('a, 'e) world \<Rightarrow> 'x result \<times> ('a, 'e) world) option"

text \<open>\<^verbatim>\<open>std::function::operator()\<close>: an empty function throws, otherwise the target runs.\<close>

definition invoke ::
  "('a, 'e, 'x) Creator \<Rightarrow> ('a, 'e) world \<Rightarrow> 'x result \<times> ('a, 'e) world" where
  "invoke f w = (case f of None \<Rightarrow> (Throws Bad_function_call, w) | Some g \<Rightarrow> g w)"

subsection \<open>The class\<close>

text \<open>
  The data members. A name cannot end with an underscore here, so \<^verbatim>\<open>value_\<close>, \<^verbatim>\<open>ctor_\<close>
  and \<^verbatim>\<open>flag_\<close> are written with a prime. \<^verbatim>\<open>std::unique_ptr<T> value_\<close> is the raw pointer
  it owns, \<^verbatim>\<open>std::once_flag flag_\<close> is whether a call through it has returned.
\<close>

record ('a, 'e, 'x) Lazy =
  value' :: ptr
  ctor' :: "('a, 'e, 'x) Creator"
  flag' :: bool

text \<open>
  A configuration: the holder \<open>self\<close>, the world around it, and \<open>calls\<close>, the number of
  times \<^verbatim>\<open>ctor_()\<close> has been evaluated so far. The count is kept outside the world, so
  no Creator can change it.
\<close>

record ('a, 'e, 'x) config =
  self :: "('a, 'e, 'x) Lazy"
  world :: "('a, 'e) world"
  calls :: nat

text \<open>
  \<^verbatim>\<open>Lazy() : ctor_([]() { return new T(); })\<close>. The type's default construction is the
  parameter \<open>T\<close>: the value a default-constructed object has. \<open>default_creator\<close> is
  the lambda.
\<close>

definition default_creator :: "'a \<Rightarrow> ('a, 'e, 'x) Creator" where
  "default_creator T = Some (\<lambda>w. case new_obj T w of (p, w') \<Rightarrow> (Returns p, w'))"

definition Lazy_default :: "'a \<Rightarrow> ('a, 'e, 'x) Lazy" where
  "Lazy_default T = \<lparr>value' = Null, ctor' = default_creator T, flag' = False\<rparr>"

text \<open>\<^verbatim>\<open>explicit Lazy(Creator creator) : ctor_(creator)\<close>.\<close>

definition Lazy_creator :: "('a, 'e, 'x) Creator \<Rightarrow> ('a, 'e, 'x) Lazy" where
  "Lazy_creator creator = \<lparr>value' = Null, ctor' = creator, flag' = False\<rparr>"

text \<open>The configuration right after a holder has been constructed in a world.\<close>

definition fresh :: "('a, 'e, 'x) Lazy \<Rightarrow> ('a, 'e) world \<Rightarrow> ('a, 'e, 'x) config" where
  "fresh l w = \<lparr>self = l, world = w, calls = 0\<rparr>"

text \<open>
  \<^verbatim>\<open>value_.reset(p)\<close>: the holder owns \<open>p\<close> from now on, and the object owned before,
  if there was one, is deleted.
\<close>

definition reset :: "ptr \<Rightarrow> ('a, 'e, 'x) config \<Rightarrow> ('a, 'e, 'x) config" where
  "reset p c =
     (let old = value' (self c)
      in c\<lparr>self := (self c)\<lparr>value' := p\<rparr>, world := delete_obj old (world c)\<rparr>)"

text \<open>
  \<^verbatim>\<open>void Initialize() { value_.reset(ctor_()); }\<close>. The argument is evaluated first: when
  \<^verbatim>\<open>ctor_()\<close> throws, \<^verbatim>\<open>reset\<close> is never reached.
\<close>

definition Initialize ::
  "('a, 'e, 'x) config \<Rightarrow> ('x exn + unit) \<times> ('a, 'e, 'x) config" where
  "Initialize c =
     (case invoke (ctor' (self c)) (world c) of
        (Throws e, w') \<Rightarrow> (Inl e, c\<lparr>world := w', calls := calls c + 1\<rparr>)
      | (Returns p, w') \<Rightarrow> (Inr (), reset p (c\<lparr>world := w', calls := calls c + 1\<rparr>)))"

text \<open>
  \<^verbatim>\<open>std::call_once(flag_, f, this)\<close>, as the C++ standard defines it for one thread: with
  the flag set the call returns at once; otherwise \<open>f\<close> runs, and the flag is set only
  when \<open>f\<close> returns. When \<open>f\<close> throws, the exception goes to the caller and the flag
  stays as it was.
\<close>

definition call_once ::
  "(('a, 'e, 'x) config \<Rightarrow> ('x exn + unit) \<times> ('a, 'e, 'x) config) \<Rightarrow>
   ('a, 'e, 'x) config \<Rightarrow> ('x exn + unit) \<times> ('a, 'e, 'x) config" where
  "call_once f c =
     (if flag' (self c) then (Inr (), c)
      else (case f c of
              (Inl e, c') \<Rightarrow> (Inl e, c')
            | (Inr u, c') \<Rightarrow> (Inr u, c'\<lparr>self := (self c')\<lparr>flag' := True\<rparr>\<rparr>)))"

text \<open>
  How a call of \<^verbatim>\<open>value()\<close> ends: an exception leaves it, or it dereferences the null
  pointer (undefined behaviour in C++), or it returns a reference, which is the address
  of the object referred to.
\<close>

datatype 'x outcome = Raised "'x exn" | Null_deref | Ref nat

text \<open>
  \<^verbatim>\<open>T& value() { std::call_once(flag_, &Lazy::Initialize, this); return *value_.get(); }\<close>
\<close>

definition Lazy_value ::
  "('a, 'e, 'x) config \<Rightarrow> 'x outcome \<times> ('a, 'e, 'x) config" where
  "Lazy_value c =
     (case call_once Initialize c of
        (Inl e, c') \<Rightarrow> (Raised e, c')
      | (Inr u, c') \<Rightarrow>
          (case value' (self c') of
             Null \<Rightarrow> (Null_deref, c')
           | Addr a \<Rightarrow> (Ref a, c')))"

text \<open>\<^verbatim>\<open>bool value_created() const { return static_cast<bool>(value_); }\<close>\<close>

definition value_created :: "('a, 'e, 'x) config \<Rightarrow> bool" where
  "value_created c = (value' (self c) \<noteq> Null)"

subsection \<open>Sequences of calls\<close>

text \<open>The two public member functions, and what the caller sees of a call.\<close>

datatype call = Value | Value_created

datatype 'x seen = Got "'x outcome" | Created bool

fun step :: "call \<Rightarrow> ('a, 'e, 'x) config \<Rightarrow> 'x seen \<times> ('a, 'e, 'x) config" where
  "step Value c = (case Lazy_value c of (r, c') \<Rightarrow> (Got r, c'))"
| "step Value_created c = (Created (value_created c), c)"

fun run :: "call list \<Rightarrow> ('a, 'e, 'x) config \<Rightarrow> 'x seen list \<times> ('a, 'e, 'x) config" where
  "run [] c = ([], c)"
| "run (k # ks) c =
     (case step k c of (r, c1) \<Rightarrow> (case run ks c1 of (rs, c2) \<Rightarrow> (r # rs, c2)))"

text \<open>Whether a call was seen to end with an exception.\<close>

fun raised :: "'x seen \<Rightarrow> bool" where
  "raised (Got (Raised e)) = True"
| "raised r = False"

subsection \<open>Concrete creators and worlds\<close>

text \<open>
  Inputs for the closed instances below: the objects are numbers, the rest of the world
  is a counter, exceptions carry a message.
\<close>

definition world0 :: "(nat, nat) world" where
  "world0 = \<lparr>heap = [], ext = 0\<rparr>"

text \<open>\<^verbatim>\<open>[]() { return new T(42); }\<close>\<close>

definition make_42 :: "(nat, nat, string) Creator" where
  "make_42 = Some (\<lambda>w. case new_obj 42 w of (p, w') \<Rightarrow> (Returns p, w'))"

text \<open>A creator that throws every time it runs.\<close>

definition always_throws :: "(nat, nat, string) Creator" where
  "always_throws = Some (\<lambda>w. (Throws (Exn ''boom''), w))"

text \<open>A creator that throws on its first run, counts it, and creates 7 from then on.\<close>

definition throws_first :: "(nat, nat, string) Creator" where
  "throws_first =
     Some (\<lambda>w. if ext w = 0 then (Throws (Exn ''boom''), w\<lparr>ext := 1\<rparr>)
               else (case new_obj 7 w of (p, w') \<Rightarrow> (Returns p, w')))"

text \<open>\<^verbatim>\<open>[]() -> T* { return nullptr; }\<close>\<close>

definition returns_null :: "(nat, nat, string) Creator" where
  "returns_null = Some (\<lambda>w. (Returns Null, w))"

section \<open>Properties\<close>

subsection \<open>The two ways through value()\<close>

text \<open>
  A call of \<^verbatim>\<open>value()\<close> goes one of two ways. With the flag set nothing runs and nothing
  changes; with the flag unset the Creator runs once and decides the rest.
\<close>

lemma later_value:
  "flag' (self c) \<Longrightarrow>
   Lazy_value c = ((case value' (self c) of Null \<Rightarrow> Null_deref | Addr a \<Rightarrow> Ref a), c)"
  by (simp add: Lazy_value_def call_once_def split: ptr.splits)

lemma first_value:
  assumes "\<not> flag' (self c)" and "invoke (ctor' (self c)) (world c) = (r, w')"
  shows "Lazy_value c =
    (case r of
       Throws e \<Rightarrow> (Raised e, c\<lparr>world := w', calls := calls c + 1\<rparr>)
     | Returns p \<Rightarrow>
         ((case p of Null \<Rightarrow> Null_deref | Addr a \<Rightarrow> Ref a),
          c\<lparr>self := (self c)\<lparr>value' := p, flag' := True\<rparr>,
            world := delete_obj (value' (self c)) w', calls := calls c + 1\<rparr>))"
  using assms
  by (simp add: Lazy_value_def call_once_def Initialize_def reset_def
           split: result.splits ptr.splits)

text \<open>The same as one case analysis: the three ways a call of \<^verbatim>\<open>value()\<close> can go.\<close>

lemma Lazy_value_cases [case_names Settled Threw Created]:
  obtains "flag' (self c)"
      and "Lazy_value c = ((case value' (self c) of Null \<Rightarrow> Null_deref | Addr a \<Rightarrow> Ref a), c)"
  | e w' where "\<not> flag' (self c)"
      and "invoke (ctor' (self c)) (world c) = (Throws e, w')"
      and "Lazy_value c = (Raised e, c\<lparr>world := w', calls := calls c + 1\<rparr>)"
  | p w' where "\<not> flag' (self c)"
      and "invoke (ctor' (self c)) (world c) = (Returns p, w')"
      and "Lazy_value c =
        ((case p of Null \<Rightarrow> Null_deref | Addr a \<Rightarrow> Ref a),
         c\<lparr>self := (self c)\<lparr>value' := p, flag' := True\<rparr>,
           world := delete_obj (value' (self c)) w', calls := calls c + 1\<rparr>)"
proof (cases "flag' (self c)")
  case True
  with that(1) show ?thesis by (simp add: later_value)
next
  case False
  obtain r w' where inv: "invoke (ctor' (self c)) (world c) = (r, w')"
    by (cases "invoke (ctor' (self c)) (world c)")
  show ?thesis
  proof (cases r)
    case (Throws e)
    with False inv first_value [OF False inv] that(2) show ?thesis by simp
  next
    case (Returns p)
    with False inv first_value [OF False inv] that(3) show ?thesis by simp
  qed
qed

text \<open>Once the flag is set and a pointer is owned, every call answers from the holder.\<close>

lemma settled_run:
  "flag' (self c) \<Longrightarrow> value' (self c) = Addr a \<Longrightarrow>
   run ks c = (map (\<lambda>k. case k of Value \<Rightarrow> Got (Ref a) | Value_created \<Rightarrow> Created True) ks, c)"
proof (induction ks)
  case Nil
  show ?case by simp
next
  case (Cons k ks)
  then show ?case
    by (cases k) (simp_all add: later_value value_created_def)
qed

subsection \<open>What one call and a sequence of calls preserve\<close>

lemma run_append:
  "run (ks @ ks') c =
     (case run ks c of (rs, c1) \<Rightarrow> (case run ks' c1 of (rs', c2) \<Rightarrow> (rs @ rs', c2)))"
  by (induction ks arbitrary: c) (simp_all split: prod.splits)

lemma snd_run_Cons: "snd (run (k # ks) c) = snd (run ks (snd (step k c)))"
  by (simp split: prod.splits)

lemma snd_run_append: "snd (run (ks @ ks') c) = snd (run ks' (snd (run ks c)))"
  by (simp add: run_append split: prod.splits)

text \<open>One call.\<close>

lemma step_ctor: "ctor' (self (snd (step k c))) = ctor' (self c)"
proof (cases k)
  case Value
  then show ?thesis by (cases c rule: Lazy_value_cases) simp_all
next
  case Value_created
  then show ?thesis by simp
qed

lemma step_owned:
  assumes "flag' (self c) \<or> value' (self c) = Null"
  shows "flag' (self (snd (step k c))) \<or> value' (self (snd (step k c))) = Null"
proof (cases k)
  case Value
  with assms show ?thesis by (cases c rule: Lazy_value_cases) simp_all
next
  case Value_created
  with assms show ?thesis by simp
qed

lemma step_calls:
  "calls (snd (step k c)) + (if flag' (self c) then 1 else 0) =
   calls c + (if raised (fst (step k c)) then 1 else 0)
     + (if flag' (self (snd (step k c))) then 1 else 0)"
proof (cases k)
  case Value
  then show ?thesis
    by (cases c rule: Lazy_value_cases) (simp_all split: ptr.splits)
next
  case Value_created
  then show ?thesis by simp
qed

text \<open>A call of \<^verbatim>\<open>value()\<close> runs the Creator at most once, \<^verbatim>\<open>value_created()\<close> never.\<close>

lemma step_calls_le: "calls (snd (step k c)) \<le> calls c + (if k = Value then 1 else 0)"
proof (cases k)
  case Value
  then show ?thesis by (cases c rule: Lazy_value_cases) simp_all
next
  case Value_created
  then show ?thesis by simp
qed

lemma step_created:
  assumes "flag' (self c) \<or> value' (self c) = Null" and "value_created c"
  shows "value_created (snd (step k c))"
proof (cases k)
  case Value
  from assms have "flag' (self c)" by (auto simp: value_created_def)
  with Value assms(2) show ?thesis by (simp add: later_value)
next
  case Value_created
  with assms show ?thesis by simp
qed

text \<open>Sequences of calls, by induction from the facts about one call.\<close>

lemma run_ctor: "ctor' (self (snd (run ks c))) = ctor' (self c)"
proof (induction ks arbitrary: c)
  case Nil
  show ?case by simp
next
  case (Cons k ks)
  have "ctor' (self (snd (run ks (snd (step k c))))) = ctor' (self (snd (step k c)))"
    by (rule Cons.IH)
  then show ?case by (simp only: snd_run_Cons step_ctor)
qed

lemma run_owned:
  "flag' (self c) \<or> value' (self c) = Null \<Longrightarrow>
   flag' (self (snd (run ks c))) \<or> value' (self (snd (run ks c))) = Null"
proof (induction ks arbitrary: c)
  case Nil
  then show ?case by simp
next
  case (Cons k ks)
  from Cons.prems have "flag' (self (snd (step k c))) \<or> value' (self (snd (step k c))) = Null"
    by (rule step_owned)
  then have "flag' (self (snd (run ks (snd (step k c)))))
      \<or> value' (self (snd (run ks (snd (step k c))))) = Null"
    by (rule Cons.IH)
  then show ?case by (simp only: snd_run_Cons)
qed

lemma run_calls:
  "calls (snd (run ks c)) + (if flag' (self c) then 1 else 0) =
   calls c + length (filter raised (fst (run ks c)))
     + (if flag' (self (snd (run ks c))) then 1 else 0)"
proof (induction ks arbitrary: c)
  case Nil
  show ?case by simp
next
  case (Cons k ks)
  obtain r c1 where s: "step k c = (r, c1)" by (cases "step k c")
  obtain rs c2 where t: "run ks c1 = (rs, c2)" by (cases "run ks c1")
  from step_calls [of k c] s
  have 1: "calls c1 + (if flag' (self c) then 1 else 0) =
      calls c + (if raised r then 1 else 0) + (if flag' (self c1) then 1 else 0)"
    by simp
  from Cons.IH [of c1] t
  have 2: "calls c2 + (if flag' (self c1) then 1 else 0) =
      calls c1 + length (filter raised rs) + (if flag' (self c2) then 1 else 0)"
    by simp
  from 1 2 s t show ?case by (simp split: if_splits)
qed

lemma run_calls_le: "calls (snd (run ks c)) \<le> calls c + length (filter (\<lambda>k. k = Value) ks)"
proof (induction ks arbitrary: c)
  case Nil
  show ?case by simp
next
  case (Cons k ks)
  have "calls (snd (run ks (snd (step k c))))
      \<le> calls (snd (step k c)) + length (filter (\<lambda>k. k = Value) ks)"
    by (rule Cons.IH)
  with step_calls_le [of k c] show ?case
    by (simp only: snd_run_Cons) (simp split: if_splits)
qed

lemma run_created:
  "flag' (self c) \<or> value' (self c) = Null \<Longrightarrow> value_created c \<Longrightarrow>
   value_created (snd (run ks c))"
proof (induction ks arbitrary: c)
  case Nil
  then show ?case by simp
next
  case (Cons k ks)
  from Cons.prems have a: "flag' (self (snd (step k c))) \<or> value' (self (snd (step k c))) = Null"
    by (simp add: step_owned)
  from Cons.prems have b: "value_created (snd (step k c))"
    by (simp add: step_created)
  from a b have "value_created (snd (run ks (snd (step k c))))"
    by (rule Cons.IH)
  then show ?case by (simp only: snd_run_Cons)
qed

subsection \<open>What a call's outcome says about the holder\<close>

lemma run_settled_flag: "flag' (self c) \<Longrightarrow> snd (run ks c) = c"
proof (induction ks)
  case Nil
  show ?case by simp
next
  case (Cons k ks)
  from Cons.prems have "snd (step k c) = c"
    by (cases k) (simp_all add: later_value)
  with Cons show ?case by (simp only: snd_run_Cons)
qed

lemma value_Ref:
  assumes "Lazy_value c = (Ref a, c1)"
  shows "flag' (self c1) \<and> value' (self c1) = Addr a"
  using assms by (cases c rule: Lazy_value_cases) (auto split: ptr.splits)

lemma value_Raised:
  assumes "Lazy_value c = (Raised e, c1)"
  shows "\<not> flag' (self c) \<and> self c1 = self c"
  using assms by (cases c rule: Lazy_value_cases) (auto split: ptr.splits)

subsection \<open>Holders as the constructors make them\<close>

text \<open>The default holder is the holder of the default Creator.\<close>

lemma Lazy_default_creator: "Lazy_default T = Lazy_creator (default_creator T)"
  by (simp add: Lazy_default_def Lazy_creator_def)

lemma fresh_owned:
  "flag' (self (fresh (Lazy_creator F) w)) \<or> value' (self (fresh (Lazy_creator F) w)) = Null"
  by (simp add: fresh_def Lazy_creator_def)

lemma run_fresh_ctor: "ctor' (self (snd (run ks (fresh (Lazy_creator F) w)))) = F"
  by (simp add: run_ctor) (simp add: fresh_def Lazy_creator_def)

lemma run_fresh_owned:
  "\<not> flag' (self (snd (run ks (fresh (Lazy_creator F) w)))) \<Longrightarrow>
   value' (self (snd (run ks (fresh (Lazy_creator F) w)))) = Null"
  using run_owned [OF fresh_owned, of ks F w] by simp

text \<open>The member functions and the constructors, unfolded to evaluate closed instances.\<close>

lemmas members = Lazy_value_def call_once_def Initialize_def reset_def invoke_def fresh_def
  Lazy_creator_def new_obj_def value_created_def

section \<open>The claims\<close>

text \<open>
  Claim C1. A holder is constructed with a factory \<open>F\<close> whose run returns a pointer to an
  object. Then however many times \<^verbatim>\<open>value()\<close> is called, at least once, every call returns
  a reference to that object, the world is the one a single run of \<open>F\<close> leaves, and \<open>F\<close>
  has run exactly once: the calls after the first change nothing.
\<close>

theorem custom_factory_value:
  assumes "invoke F w = (Returns (Addr a), w')" and "0 < n"
  shows "run (replicate n Value) (fresh (Lazy_creator F) w) =
    (replicate n (Got (Ref a)),
     \<lparr>self = \<lparr>value' = Addr a, ctor' = F, flag' = True\<rparr>, world = w', calls = 1\<rparr>)"
proof -
  let ?c1 = "\<lparr>self = \<lparr>value' = Addr a, ctor' = F, flag' = True\<rparr>, world = w', calls = 1\<rparr>"
  from assms(2) obtain m where n: "n = Suc m" by (cases n) auto
  have "\<not> flag' (self (fresh (Lazy_creator F) w))"
    by (simp add: fresh_def Lazy_creator_def)
  moreover have "invoke (ctor' (self (fresh (Lazy_creator F) w))) (world (fresh (Lazy_creator F) w))
      = (Returns (Addr a), w')"
    using assms(1) by (simp add: fresh_def Lazy_creator_def)
  ultimately have first: "Lazy_value (fresh (Lazy_creator F) w) = (Ref a, ?c1)"
    by (simp add: first_value fresh_def Lazy_creator_def)
  have "run (replicate m Value) ?c1 =
      (map (\<lambda>k. case k of Value \<Rightarrow> Got (Ref a) | Value_created \<Rightarrow> Created True) (replicate m Value), ?c1)"
    by (rule settled_run) simp_all
  with first n show ?thesis by simp
qed

theorem custom_factory_value_witness:
  "invoke make_42 world0 = (Returns (Addr 0), \<lparr>heap = [Some 42], ext = 0\<rparr>) \<and> (0::nat) < 3 \<and>
   run [Value, Value, Value] (fresh (Lazy_creator make_42) world0) =
     ([Got (Ref 0), Got (Ref 0), Got (Ref 0)],
      \<lparr>self = \<lparr>value' = Addr 0, ctor' = make_42, flag' = True\<rparr>,
       world = \<lparr>heap = [Some 42], ext = 0\<rparr>, calls = 1\<rparr>)"
proof -
  have h: "invoke make_42 world0 = (Returns (Addr 0), \<lparr>heap = [Some 42], ext = 0\<rparr>)"
    by (simp add: invoke_def make_42_def world0_def new_obj_def)
  have n: "(0::nat) < 3" by simp
  have r: "replicate 3 x = [x, x, x]" for x :: 'z by (simp add: numeral_3_eq_3)
  from custom_factory_value [OF h n] h show ?thesis by (simp add: r)
qed

text \<open>
  Claim C2, as amended. In every sequence of \<^verbatim>\<open>value()\<close> and \<^verbatim>\<open>value_created()\<close> calls on a
  holder, the factory has been invoked as many times as calls of \<^verbatim>\<open>value()\<close> have ended
  with an exception, plus once if the guard is set, that is, if an invocation has
  returned. Once the guard is set no later call invokes the factory. And the factory is
  invoked at most once for each call of \<^verbatim>\<open>value()\<close>. So it is invoked at most once when no
  invocation fails, and it returns at most once in any case.
\<close>

theorem factory_calls_accounting:
  "calls (snd (run ks (fresh (Lazy_creator F) w))) =
     length (filter raised (fst (run ks (fresh (Lazy_creator F) w))))
       + (if flag' (self (snd (run ks (fresh (Lazy_creator F) w)))) then 1 else 0)
   \<and> (flag' (self (snd (run ks (fresh (Lazy_creator F) w)))) \<longrightarrow>
        calls (snd (run (ks @ ks') (fresh (Lazy_creator F) w)))
          = calls (snd (run ks (fresh (Lazy_creator F) w))))
   \<and> calls (snd (run ks (fresh (Lazy_creator F) w))) \<le> length (filter (\<lambda>k. k = Value) ks)"
proof (intro conjI)
  let ?c0 = "fresh (Lazy_creator F) w"
  from run_calls [of ks ?c0]
  show "calls (snd (run ks ?c0)) =
     length (filter raised (fst (run ks ?c0)))
       + (if flag' (self (snd (run ks ?c0))) then 1 else 0)"
    by (simp add: fresh_def Lazy_creator_def)
  show "flag' (self (snd (run ks ?c0))) \<longrightarrow>
        calls (snd (run (ks @ ks') ?c0)) = calls (snd (run ks ?c0))"
  proof
    assume "flag' (self (snd (run ks ?c0)))"
    then have "snd (run ks' (snd (run ks ?c0))) = snd (run ks ?c0)"
      by (rule run_settled_flag)
    moreover have "snd (run (ks @ ks') ?c0) = snd (run ks' (snd (run ks ?c0)))"
      by (rule snd_run_append)
    ultimately show "calls (snd (run (ks @ ks') ?c0)) = calls (snd (run ks ?c0))"
      by simp
  qed
  from run_calls_le [of ks ?c0]
  show "calls (snd (run ks ?c0)) \<le> length (filter (\<lambda>k. k = Value) ks)"
    by (simp add: fresh_def)
qed

theorem factory_calls_accounting_witness:
  "fst (run [Value, Value_created, Value] (fresh (Lazy_creator throws_first) world0))
     = [Got (Raised (Exn ''boom'')), Created False, Got (Ref 0)]
   \<and> calls (snd (run [Value, Value_created, Value] (fresh (Lazy_creator throws_first) world0))) = 2
   \<and> flag' (self (snd (run [Value, Value_created, Value] (fresh (Lazy_creator throws_first) world0))))
   \<and> calls (snd (run ([Value, Value_created, Value] @ [Value, Value])
        (fresh (Lazy_creator throws_first) world0))) = 2
   \<and> (2::nat) \<le> length (filter (\<lambda>k. k = Value) [Value, Value_created, Value])"
proof -
  let ?ks = "[Value, Value_created, Value]"
  let ?c0 = "fresh (Lazy_creator throws_first) world0"
  have rs: "fst (run ?ks ?c0) = [Got (Raised (Exn ''boom'')), Created False, Got (Ref 0)]"
    by (simp add: members throws_first_def world0_def)
  have fl: "flag' (self (snd (run ?ks ?c0)))"
    by (simp add: members throws_first_def world0_def)
  from factory_calls_accounting [of ?ks throws_first world0 "[Value, Value]"] rs fl
  show ?thesis by simp
qed

text \<open>
  Claim C2 as stated, with the sequences in which an invocation fails, does not hold:
  two calls of \<^verbatim>\<open>value()\<close> on a holder whose factory throws invoke the factory twice.
\<close>

theorem factory_invoked_twice_counterexample:
  "\<not> calls (snd (run [Value, Value] (fresh (Lazy_creator always_throws) world0))) \<le> 1"
  by (simp add: Lazy_value_def call_once_def Initialize_def invoke_def fresh_def
        Lazy_creator_def always_throws_def)

text \<open>
  Claim C3. Once a call of \<^verbatim>\<open>value()\<close> has returned a reference, every later call of
  \<^verbatim>\<open>value()\<close> returns a reference to the same address and every call of
  \<^verbatim>\<open>value_created()\<close> returns true, whatever has happened to the world meanwhile, and
  none of these calls changes anything: the factory is not invoked again.
\<close>

theorem value_idempotent:
  assumes "Lazy_value c = (Ref a, c1)" and "self c2 = self c1"
  shows "run ks c2 =
    (map (\<lambda>k. case k of Value \<Rightarrow> Got (Ref a) | Value_created \<Rightarrow> Created True) ks, c2)"
proof -
  from assms(1) have "flag' (self c1) \<and> value' (self c1) = Addr a"
    by (rule value_Ref)
  with assms(2) have "flag' (self c2)" and "value' (self c2) = Addr a"
    by simp_all
  then show ?thesis by (rule settled_run)
qed

theorem value_idempotent_witness:
  "Lazy_value (fresh (Lazy_creator make_42) world0) =
     (Ref 0, \<lparr>self = \<lparr>value' = Addr 0, ctor' = make_42, flag' = True\<rparr>,
              world = \<lparr>heap = [Some 42], ext = 0\<rparr>, calls = 1\<rparr>)
   \<and> run [Value, Value_created, Value]
        \<lparr>self = \<lparr>value' = Addr 0, ctor' = make_42, flag' = True\<rparr>,
         world = \<lparr>heap = [Some 42], ext = 0\<rparr>, calls = 1\<rparr>
      = ([Got (Ref 0), Created True, Got (Ref 0)],
         \<lparr>self = \<lparr>value' = Addr 0, ctor' = make_42, flag' = True\<rparr>,
          world = \<lparr>heap = [Some 42], ext = 0\<rparr>, calls = 1\<rparr>)"
proof -
  let ?c1 = "\<lparr>self = \<lparr>value' = Addr 0, ctor' = make_42, flag' = True\<rparr>,
              world = \<lparr>heap = [Some (42::nat)], ext = 0::nat\<rparr>, calls = 1\<rparr>"
  have h: "Lazy_value (fresh (Lazy_creator make_42) world0) = (Ref 0, ?c1)"
    by (simp add: members make_42_def world0_def)
  have e: "self ?c1 = self ?c1" by (rule refl)
  from value_idempotent [OF h e, of "[Value, Value_created, Value]"] h
  show ?thesis by simp
qed

text \<open>
  Claim C5. On a new holder \<^verbatim>\<open>value_created()\<close> returns false for as long as \<^verbatim>\<open>value()\<close>
  has not been called. After a call of \<^verbatim>\<open>value()\<close> that returned a reference it returns
  true. And once it returns true on a holder, it returns true after any further calls:
  the instance never goes from present back to absent.
\<close>

theorem value_created_once:
  "run (replicate n Value_created) (fresh (Lazy_creator F) w)
     = (replicate n (Created False), fresh (Lazy_creator F) w)
   \<and> (Lazy_value c = (Ref a, c1) \<longrightarrow> value_created c1)
   \<and> (value_created (snd (run ks (fresh (Lazy_creator F) w))) \<longrightarrow>
        value_created (snd (run (ks @ ks') (fresh (Lazy_creator F) w))))"
proof (intro conjI impI)
  let ?c0 = "fresh (Lazy_creator F) w"
  show "run (replicate n Value_created) ?c0 = (replicate n (Created False), ?c0)"
    by (induction n) (simp_all add: value_created_def fresh_def Lazy_creator_def)
  show "value_created c1" if "Lazy_value c = (Ref a, c1)"
    using value_Ref [OF that] by (simp add: value_created_def)
  show "value_created (snd (run (ks @ ks') ?c0))" if "value_created (snd (run ks ?c0))"
  proof -
    have "flag' (self (snd (run ks ?c0))) \<or> value' (self (snd (run ks ?c0))) = Null"
      by (rule run_owned) (rule fresh_owned)
    from this that have "value_created (snd (run ks' (snd (run ks ?c0))))"
      by (rule run_created)
    then show ?thesis by (simp only: snd_run_append)
  qed
qed

theorem value_created_once_witness:
  "run (replicate 2 Value_created) (fresh (Lazy_creator make_42) world0)
     = (replicate 2 (Created False), fresh (Lazy_creator make_42) world0)
   \<and> Lazy_value (fresh (Lazy_creator make_42) world0) =
       (Ref 0, \<lparr>self = \<lparr>value' = Addr 0, ctor' = make_42, flag' = True\<rparr>,
                world = \<lparr>heap = [Some 42], ext = 0\<rparr>, calls = 1\<rparr>)
   \<and> value_created \<lparr>self = \<lparr>value' = Addr 0, ctor' = make_42, flag' = True\<rparr>,
                world = \<lparr>heap = [Some 42], ext = 0\<rparr>, calls = 1\<rparr>
   \<and> value_created (snd (run [Value] (fresh (Lazy_creator make_42) world0)))
   \<and> value_created (snd (run ([Value] @ [Value_created, Value])
        (fresh (Lazy_creator make_42) world0)))"
proof -
  let ?c0 = "fresh (Lazy_creator make_42) world0"
  let ?c1 = "\<lparr>self = \<lparr>value' = Addr 0, ctor' = make_42, flag' = True\<rparr>,
              world = \<lparr>heap = [Some (42::nat)], ext = 0::nat\<rparr>, calls = 1\<rparr>"
  have h: "Lazy_value ?c0 = (Ref 0, ?c1)"
    by (simp add: members make_42_def world0_def)
  have v: "value_created (snd (run [Value] ?c0))"
    by (simp add: h) (simp add: value_created_def)
  from value_created_once [of 2 make_42 world0 ?c0 0 ?c1 "[Value]" "[Value_created, Value]"] h v
  show ?thesis by simp
qed

text \<open>
  Claim C6. On a holder constructed with no factory, the first call of \<^verbatim>\<open>value()\<close>
  returns a reference to a new object, one that did not exist before the call, and that
  object has the default-constructed value of the type. The default Creator has run
  once.
\<close>

theorem default_factory_value:
  "fst (Lazy_value (fresh (Lazy_default T) w)) = Ref (length (heap w))
   \<and> deref w (length (heap w)) = None
   \<and> deref (world (snd (Lazy_value (fresh (Lazy_default T) w)))) (length (heap w)) = Some T
   \<and> calls (snd (Lazy_value (fresh (Lazy_default T) w))) = 1"
  by (simp add: Lazy_value_def call_once_def Initialize_def reset_def invoke_def fresh_def
        Lazy_default_def default_creator_def new_obj_def deref_def)

text \<open>
  Claim C7. When a call of \<^verbatim>\<open>value()\<close> finds the guard unset and the factory throws, the
  call ends with the very exception the factory threw. The world is as the factory left
  it and the holder is untouched.
\<close>

theorem factory_failure_propagates:
  assumes "\<not> flag' (self c)" and "invoke (ctor' (self c)) (world c) = (Throws e, w')"
  shows "Lazy_value c = (Raised e, c\<lparr>world := w', calls := calls c + 1\<rparr>)"
  using first_value [OF assms] by simp

theorem factory_failure_propagates_witness:
  "\<not> flag' (self (fresh (Lazy_creator always_throws) world0))
   \<and> invoke (ctor' (self (fresh (Lazy_creator always_throws) world0)))
        (world (fresh (Lazy_creator always_throws) world0)) = (Throws (Exn ''boom''), world0)
   \<and> Lazy_value (fresh (Lazy_creator always_throws) world0) =
       (Raised (Exn ''boom''),
        \<lparr>self = \<lparr>value' = Null, ctor' = always_throws, flag' = False\<rparr>,
         world = world0, calls = 1\<rparr>)"
proof -
  let ?c0 = "fresh (Lazy_creator always_throws) world0"
  have f: "\<not> flag' (self ?c0)"
    by (simp add: fresh_def Lazy_creator_def)
  have i: "invoke (ctor' (self ?c0)) (world ?c0) = (Throws (Exn ''boom''), world0)"
    by (simp add: fresh_def Lazy_creator_def invoke_def always_throws_def)
  from factory_failure_propagates [OF f i] f i show ?thesis
    by (simp add: fresh_def Lazy_creator_def)
qed

text \<open>
  Claim C9. On a holder made by a constructor and used through its two member functions,
  a call of \<^verbatim>\<open>value()\<close> that ends with an exception leaves the holder's members as they
  were, and \<^verbatim>\<open>value_created()\<close> is still false. The next call of \<^verbatim>\<open>value()\<close> invokes the
  factory again, and ends the way that new invocation ends.
\<close>

theorem failed_construction_retried:
  assumes "Lazy_value (snd (run ks (fresh (Lazy_creator F) w))) = (Raised e, c1)"
  shows "self c1 = self (snd (run ks (fresh (Lazy_creator F) w)))
    \<and> \<not> value_created c1
    \<and> calls (snd (Lazy_value c1)) = calls c1 + 1
    \<and> fst (Lazy_value c1) =
        (case fst (invoke F (world c1)) of
           Throws e' \<Rightarrow> Raised e'
         | Returns p \<Rightarrow> (case p of Null \<Rightarrow> Null_deref | Addr a \<Rightarrow> Ref a))"
proof -
  let ?c = "snd (run ks (fresh (Lazy_creator F) w))"
  from assms have unset: "\<not> flag' (self ?c)" and same: "self c1 = self ?c"
    using value_Raised by blast+
  from unset have "value' (self ?c) = Null" by (rule run_fresh_owned)
  with same have absent: "\<not> value_created c1" by (simp add: value_created_def)
  from same unset have unset1: "\<not> flag' (self c1)" by simp
  from same have F: "ctor' (self c1) = F" by (simp add: run_fresh_ctor)
  obtain r w' where inv: "invoke (ctor' (self c1)) (world c1) = (r, w')"
    by (cases "invoke (ctor' (self c1)) (world c1)")
  from first_value [OF unset1 inv] inv F
  have "calls (snd (Lazy_value c1)) = calls c1 + 1"
    and "fst (Lazy_value c1) =
        (case fst (invoke F (world c1)) of
           Throws e' \<Rightarrow> Raised e'
         | Returns p \<Rightarrow> (case p of Null \<Rightarrow> Null_deref | Addr a \<Rightarrow> Ref a))"
    by (simp_all split: result.splits)
  with same absent show ?thesis by simp
qed

theorem failed_construction_retried_witness:
  "Lazy_value (snd (run [Value_created] (fresh (Lazy_creator throws_first) world0))) =
     (Raised (Exn ''boom''),
      \<lparr>self = \<lparr>value' = Null, ctor' = throws_first, flag' = False\<rparr>,
       world = \<lparr>heap = [], ext = 1\<rparr>, calls = 1\<rparr>)
   \<and> \<not> value_created \<lparr>self = \<lparr>value' = Null, ctor' = throws_first, flag' = False\<rparr>,
       world = \<lparr>heap = [], ext = 1\<rparr>, calls = 1\<rparr>
   \<and> calls (snd (Lazy_value \<lparr>self = \<lparr>value' = Null, ctor' = throws_first, flag' = False\<rparr>,
       world = \<lparr>heap = [], ext = 1\<rparr>, calls = 1\<rparr>)) = 2
   \<and> fst (Lazy_value \<lparr>self = \<lparr>value' = Null, ctor' = throws_first, flag' = False\<rparr>,
       world = \<lparr>heap = [], ext = 1\<rparr>, calls = 1\<rparr>) = Ref 0"
proof -
  let ?c1 = "\<lparr>self = \<lparr>value' = Null, ctor' = throws_first, flag' = False\<rparr>,
       world = \<lparr>heap = [], ext = 1::nat\<rparr>, calls = 1\<rparr>"
  have h: "Lazy_value (snd (run [Value_created] (fresh (Lazy_creator throws_first) world0))) =
     (Raised (Exn ''boom''), ?c1)"
    by (simp add: members throws_first_def world0_def)
  have i: "fst (invoke throws_first (world ?c1)) = Returns (Addr 0)"
    by (simp add: invoke_def throws_first_def new_obj_def)
  from failed_construction_retried [OF h] h i show ?thesis
    by (simp add: value_created_def fresh_def Lazy_creator_def)
qed

text \<open>
  Claim C10. A call of \<^verbatim>\<open>value()\<close> that finds the guard unset takes over whatever pointer
  the Creator returns and sets the guard. When the pointer is not null the call returns
  a reference to the address the Creator returned, in the world the Creator left, so
  the reference refers to the object the Creator produced. When the pointer is null
  the call dereferences the null pointer.
\<close>

theorem creator_must_return_object:
  assumes "\<not> flag' (self (snd (run ks (fresh (Lazy_creator F) w))))"
    and "invoke F (world (snd (run ks (fresh (Lazy_creator F) w)))) = (Returns p, w')"
  shows "Lazy_value (snd (run ks (fresh (Lazy_creator F) w))) =
    ((case p of Null \<Rightarrow> Null_deref | Addr a \<Rightarrow> Ref a),
     \<lparr>self = \<lparr>value' = p, ctor' = F, flag' = True\<rparr>, world = w',
      calls = calls (snd (run ks (fresh (Lazy_creator F) w))) + 1\<rparr>)"
proof -
  let ?c = "snd (run ks (fresh (Lazy_creator F) w))"
  have F: "ctor' (self ?c) = F" by (rule run_fresh_ctor)
  from assms(1) have null: "value' (self ?c) = Null" by (rule run_fresh_owned)
  from assms(2) F have inv: "invoke (ctor' (self ?c)) (world ?c) = (Returns p, w')"
    by simp
  from first_value [OF assms(1) inv] null F show ?thesis
    by simp
qed

theorem creator_must_return_object_witness:
  "(\<not> flag' (self (snd (run [Value_created] (fresh (Lazy_creator make_42) world0))))
    \<and> invoke make_42 (world (snd (run [Value_created] (fresh (Lazy_creator make_42) world0))))
        = (Returns (Addr 0), \<lparr>heap = [Some 42], ext = 0\<rparr>)
    \<and> Lazy_value (snd (run [Value_created] (fresh (Lazy_creator make_42) world0))) =
        (Ref 0, \<lparr>self = \<lparr>value' = Addr 0, ctor' = make_42, flag' = True\<rparr>,
                 world = \<lparr>heap = [Some 42], ext = 0\<rparr>, calls = 1\<rparr>))
   \<and> (\<not> flag' (self (snd (run [] (fresh (Lazy_creator returns_null) world0))))
    \<and> invoke returns_null (world (snd (run [] (fresh (Lazy_creator returns_null) world0))))
        = (Returns Null, world0)
    \<and> Lazy_value (snd (run [] (fresh (Lazy_creator returns_null) world0))) =
        (Null_deref, \<lparr>self = \<lparr>value' = Null, ctor' = returns_null, flag' = True\<rparr>,
                      world = world0, calls = 1\<rparr>))"
proof -
  let ?c = "snd (run [Value_created] (fresh (Lazy_creator make_42) world0))"
  let ?d = "snd (run [] (fresh (Lazy_creator returns_null) world0))"
  have f1: "\<not> flag' (self ?c)"
    by (simp add: fresh_def Lazy_creator_def)
  have i1: "invoke make_42 (world ?c) = (Returns (Addr 0), \<lparr>heap = [Some 42], ext = 0\<rparr>)"
    by (simp add: fresh_def invoke_def make_42_def new_obj_def world0_def)
  have f2: "\<not> flag' (self ?d)"
    by (simp add: fresh_def Lazy_creator_def)
  have i2: "invoke returns_null (world ?d) = (Returns Null, world0)"
    by (simp add: fresh_def invoke_def returns_null_def)
  from creator_must_return_object [OF f1 i1] creator_must_return_object [OF f2 i2] f1 i1 f2 i2
  show ?thesis by (simp add: fresh_def)
qed

end
